theory Spec2Isabelle
  imports Main "HOL-Library.AList" "HOL-Library.Sublist" "HOL-Library.Word"
begin

section \<open>Strings and numbers of the front end\<close>

text \<open>
  A JavaScript string is a sequence of 16-bit code units. The strings that the pages
  compute with (names, urls, ids, the values of the inputs and the messages built from
  them) are lists of code units; \<open>js\<close> writes one from characters below 256, each of which
  is its own code unit. The fixed texts that the camera card shows are kept as the bytes
  of the source file, which is UTF-8. Numbers that the code uses as integers (class ids,
  counts) are \<open>int\<close> (exact below \<open>2^53\<close>, where a JavaScript number is).
\<close>

type_synonym jsstring = "16 word list"

definition js :: "string \<Rightarrow> jsstring" where
  "js s = map (\<lambda>c. of_nat (of_char c)) s"

text \<open>
  The numbers that an fps field holds: what \<open>parseInt\<close> returns, that is \<open>NaN\<close>, a whole
  number or an infinity. The two zeros are one value here (both are falsy, and the pages
  do nothing else with a zero).
\<close>

datatype number = NaN | Finite int | PosInfinity | NegInfinity

definition a_tilde :: string where "a_tilde = [CHR 0xC3, CHR 0xA3]"
definition c_cedil :: string where "c_cedil = [CHR 0xC3, CHR 0xA7]"
definition O_acute :: string where "O_acute = [CHR 0xC3, CHR 0x93]"

definition digit_char :: "nat \<Rightarrow> char" where
  "digit_char d = char_of (48 + d)"

fun digits :: "nat \<Rightarrow> string" where
  "digits n = (if n < 10 then [digit_char n] else digits (n div 10) @ [digit_char (n mod 10)])"

declare digits.simps [simp del]

text \<open>\<open>String(n)\<close> and template interpolation of an integer: decimal, with a minus sign.\<close>

definition String_of :: "int \<Rightarrow> string" where
  "String_of n = (if n < 0 then CHR ''-'' # digits (nat (- n)) else digits (nat n))"

section \<open>services/api.ts\<close>

text \<open>
  \<open>CameraCreate\<close> is \<open>{name, url, fps}\<close>; \<open>Camera\<close> has the same three fields and
  \<open>id\<close>, \<open>active\<close>, so it is the extension of \<open>CameraCreate\<close> (the field \<open>id\<close> is
  written \<open>id'\<close>, the name \<open>id\<close> being the identity function).
\<close>

record CameraCreate =
  name :: jsstring
  url :: jsstring
  fps :: number

record Camera = CameraCreate +
  id' :: jsstring
  active :: bool

text \<open>
  An axios call is a promise: it resolves with the response, or rejects (no answer, or
  a status outside 2xx). The rejection carries \<open>err.response?.data?.detail\<close> when the
  server sent one. The server is not part of the front end: every service call takes the
  outcome of its request as a parameter.
\<close>

datatype http_error = Rejected "jsstring option"

type_synonym 'a promise = "http_error + 'a"

section \<open>pages/Dashboard.tsx\<close>

text \<open>
  \<open>handleDeleteCamera\<close> awaits \<open>deleteCamera(id)\<close>; when it resolves, the state update
  \<open>setCameras(prev => prev.filter(cam => cam.id !== id))\<close> runs on the list held then; when
  it rejects, the handler logs, alerts and leaves the list alone.
\<close>

definition handleDeleteCamera :: "unit promise \<Rightarrow> jsstring \<Rightarrow> Camera list \<Rightarrow> Camera list" where
  "handleDeleteCamera deleted i prev =
     (case deleted of
        Inr _ \<Rightarrow> filter (\<lambda>cam. id' cam \<noteq> i) prev
      | Inl _ \<Rightarrow> prev)"

text \<open>
  \<open>handleToggleCamera\<close> awaits \<open>updateCamera(id, {active})\<close>; \<open>updated\<close> is the camera the
  server answered with, and \<open>setCameras(prev => prev.map(cam => cam.id === id ? updated : cam))\<close>
  runs when it resolves.
\<close>

definition handleToggleCamera :: "Camera promise \<Rightarrow> jsstring \<Rightarrow> Camera list \<Rightarrow> Camera list" where
  "handleToggleCamera result i prev =
     (case result of
        Inr updated \<Rightarrow> map (\<lambda>cam. if id' cam = i then updated else cam) prev
      | Inl _ \<Rightarrow> prev)"

section \<open>components/CameraCard.tsx\<close>

text \<open>
  Modelled from the spec: the declaration of \<open>CameraAlerts\<close> is not in the sources; its
  fields are those of the wire format
  \<open>{ person_count: int, epi_count: int, has_violations: bool,
     violations: [{class_id: int, count: int}] }\<close>.
  The card reads \<open>has_violations\<close>, \<open>violations\<close>, \<open>class_id\<close>, \<open>person_count\<close> and
  \<open>epi_count\<close>; it never reads \<open>count\<close>.
\<close>

record Violation =
  class_id :: int
  count :: int

record CameraAlerts =
  person_count :: int
  epi_count :: int
  has_violations :: bool
  violations :: "Violation list"

text \<open>
  \<open>counts: Record<number, number>\<close> is an object: its own properties in the order of their
  creation, as an association list. Assigning an existing key keeps its place, a new key
  goes last (\<open>AList.update\<close>). \<open>counts[k] || 0\<close> is \<open>0\<close> for a missing key and for a
  stored \<open>0\<close>.
\<close>

type_synonym counts = "(int \<times> nat) list"

definition count_or_zero :: "counts \<Rightarrow> int \<Rightarrow> nat" where
  "count_or_zero counts k =
     (case map_of counts k of None \<Rightarrow> 0 | Some c \<Rightarrow> if c = 0 then 0 else c)"

definition bump :: "counts \<Rightarrow> Violation \<Rightarrow> counts" where
  "bump counts v = AList.update (class_id v) (count_or_zero counts (class_id v) + 1) counts"

text \<open>
  \<open>getViolationCounts\<close>: the empty object when \<open>alerts\<close> is \<open>null\<close>, else one pass of
  \<open>forEach\<close> over \<open>alerts.violations\<close>.
\<close>

definition getViolationCounts :: "CameraAlerts option \<Rightarrow> counts" where
  "getViolationCounts alerts =
     (case alerts of
        None \<Rightarrow> []
      | Some a \<Rightarrow> foldl bump [] (violations a))"

text \<open>
  \<open>Object.entries\<close> lists the array-index keys (integers from \<open>0\<close> to \<open>2^32 - 2\<close>) in
  ascending order, then the other keys in the order of their creation.
\<close>

definition is_array_index :: "int \<Rightarrow> bool" where
  "is_array_index k \<longleftrightarrow> 0 \<le> k \<and> k < 2 ^ 32 - 1"

definition Object_entries :: "counts \<Rightarrow> counts" where
  "Object_entries obj =
     sort_key fst (filter (\<lambda>p. is_array_index (fst p)) obj)
     @ filter (\<lambda>p. \<not> is_array_index (fst p)) obj"

datatype icon = AlertTriangle | HardHat | Eye | Hand | Footprints

record DisplayInfo =
  info_name :: string
  info_icon :: icon
  shortName :: string

definition VIOLATION_INFO :: "int \<rightharpoonup> DisplayInfo" where
  "VIOLATION_INFO = [
     5 \<mapsto> \<lparr>info_name = ''Sem EPI'', info_icon = AlertTriangle, shortName = ''Sem EPI''\<rparr>,
     7 \<mapsto> \<lparr>info_name = ''Sem Capacete'', info_icon = HardHat, shortName = ''Capacete''\<rparr>,
     8 \<mapsto> \<lparr>info_name = ''Sem '' @ O_acute @ ''culos'', info_icon = Eye,
           shortName = O_acute @ ''culos''\<rparr>,
     9 \<mapsto> \<lparr>info_name = ''Sem Luvas'', info_icon = Hand, shortName = ''Luvas''\<rparr>,
     10 \<mapsto> \<lparr>info_name = ''Sem Botas'', info_icon = Footprints, shortName = ''Botas''\<rparr>]"

text \<open>
  One \<open>violation-item\<close> of the alerts panel: the class id of its entry (the number that its
  React key, the entry's key string, denotes), the icon, the short name and the count.
\<close>

record ViolationItem =
  item_class :: int
  item_icon :: icon
  item_name :: string
  item_count :: nat

definition displayInfo :: "int \<Rightarrow> DisplayInfo" where
  "displayInfo classId =
     (case VIOLATION_INFO classId of
        Some info \<Rightarrow> info
      | None \<Rightarrow> \<lparr>info_name = ''Classe '' @ String_of classId, info_icon = AlertTriangle,
                 shortName = ''Viola'' @ c_cedil @ a_tilde @ ''o '' @ String_of classId\<rparr>)"

definition violation_item :: "int \<times> nat \<Rightarrow> ViolationItem" where
  "violation_item entry =
     (case entry of (classId, n) \<Rightarrow>
        \<lparr>item_class = classId, item_icon = info_icon (displayInfo classId),
         item_name = shortName (displayInfo classId), item_count = n\<rparr>)"

text \<open>\<open>alerts?.has_violations || false\<close>, \<open>alerts?.person_count || 0\<close>, \<open>alerts?.epi_count || 0\<close>.\<close>

definition hasViolations :: "CameraAlerts option \<Rightarrow> bool" where
  "hasViolations alerts = (case alerts of None \<Rightarrow> False | Some a \<Rightarrow> has_violations a)"

definition shown_person_count :: "CameraAlerts option \<Rightarrow> int" where
  "shown_person_count alerts = (case alerts of None \<Rightarrow> 0 | Some a \<Rightarrow> person_count a)"

definition shown_epi_count :: "CameraAlerts option \<Rightarrow> int" where
  "shown_epi_count alerts = (case alerts of None \<Rightarrow> 0 | Some a \<Rightarrow> epi_count a)"

text \<open>
  The alerts panel is rendered for an active camera only, and its \<open>violations-list\<close> only
  when \<open>hasViolations\<close>: one item per entry of \<open>Object.entries(violationCounts)\<close>.
\<close>

record AlertsPanel =
  has_alerts :: bool
  violations_list :: "ViolationItem list option"
  persons :: int
  epis :: int

definition alerts_panel :: "Camera \<Rightarrow> CameraAlerts option \<Rightarrow> AlertsPanel option" where
  "alerts_panel camera alerts =
     (if active camera then
        Some \<lparr>has_alerts = hasViolations alerts,
              violations_list =
                (if hasViolations alerts
                 then Some (map violation_item (Object_entries (getViolationCounts alerts)))
                 else None),
              persons = shown_person_count alerts,
              epis = shown_epi_count alerts\<rparr>
      else None)"

section \<open>pages/AddCamera.tsx\<close>

text \<open>
  White space, as \<open>trim\<close> and \<open>parseInt\<close> strip it: the code units of
  \<open>WhiteSpace\<close> and \<open>LineTerminator\<close> (tab, line feed, vertical tab, form feed, carriage
  return, space, no-break space, the space separators from U+1680 to U+3000, the line
  and paragraph separators and U+FEFF).
\<close>

definition is_white_space :: "16 word \<Rightarrow> bool" where
  "is_white_space c \<longleftrightarrow>
     c \<in> set [0x0009, 0x000A, 0x000B, 0x000C, 0x000D, 0x0020, 0x00A0, 0x1680,
                0x2000, 0x2001, 0x2002, 0x2003, 0x2004, 0x2005, 0x2006, 0x2007, 0x2008,
                0x2009, 0x200A, 0x2028, 0x2029, 0x202F, 0x205F, 0x3000, 0xFEFF]"

definition trim :: "jsstring \<Rightarrow> jsstring" where
  "trim s = rev (dropWhile is_white_space (rev (dropWhile is_white_space s)))"

text \<open>
  \<open>parseInt(value)\<close> with no radix: leading white space is skipped, then an optional sign,
  then \<open>0x\<close> or \<open>0X\<close> switches to radix 16, then the longest run of digits of the radix is
  read; with no digit the result is \<open>NaN\<close>. The integer read, with all its digits,
  becomes a number: the nearest double, a tie going to the even significand, and an
  infinity from \<open>2^1024\<close> on (\<open>to_double\<close> gives \<open>None\<close> then).
\<close>

definition digit_of :: "nat \<Rightarrow> 16 word \<Rightarrow> nat option" where
  "digit_of radix c =
     (let n = unat c;
          d = (if 48 \<le> n \<and> n \<le> 57 then Some (n - 48)
               else if 97 \<le> n \<and> n \<le> 122 then Some (n - 87)
               else if 65 \<le> n \<and> n \<le> 90 then Some (n - 55)
               else None)
      in case d of None \<Rightarrow> None | Some v \<Rightarrow> if v < radix then Some v else None)"

definition digits_value :: "nat \<Rightarrow> jsstring \<Rightarrow> nat" where
  "digits_value radix z = foldl (\<lambda>acc c. acc * radix + the (digit_of radix c)) 0 z"

fun bit_length :: "nat \<Rightarrow> nat" where
  "bit_length n = (if n = 0 then 0 else Suc (bit_length (n div 2)))"

declare bit_length.simps [simp del]

definition to_double :: "nat \<Rightarrow> nat option" where
  "to_double n =
     (if bit_length n \<le> 53 then Some n
      else let k = bit_length n - 53;
               q = n div 2 ^ k;
               r = n mod 2 ^ k;
               q' = (if 2 ^ (k - 1) < r \<or> (r = 2 ^ (k - 1) \<and> odd q) then q + 1 else q)
           in if 2 ^ 1024 \<le> q' * 2 ^ k then None else Some (q' * 2 ^ k))"

definition parseInt :: "jsstring \<Rightarrow> number" where
  "parseInt s =
     (let t = dropWhile is_white_space s;
          neg = (take 1 t = js ''-'');
          u = (if take 1 t = js ''-'' \<or> take 1 t = js ''+'' then drop 1 t else t);
          hex = (take 2 u = js ''0x'' \<or> take 2 u = js ''0X'');
          radix = (if hex then 16 else 10);
          w = (if hex then drop 2 u else u);
          z = takeWhile (\<lambda>c. digit_of radix c \<noteq> None) w
      in if z = [] then NaN
         else case to_double (digits_value radix z) of
                None \<Rightarrow> if neg then NegInfinity else PosInfinity
              | Some m \<Rightarrow> Finite (if neg then - int m else int m))"

text \<open>\<open>parseInt(value) || 1\<close>: \<open>NaN\<close> and zero are falsy.\<close>

definition parseInt_or_1 :: "jsstring \<Rightarrow> number" where
  "parseInt_or_1 v =
     (case parseInt v of
        NaN \<Rightarrow> Finite 1
      | Finite n \<Rightarrow> if n = 0 then Finite 1 else Finite n
      | PosInfinity \<Rightarrow> PosInfinity
      | NegInfinity \<Rightarrow> NegInfinity)"

text \<open>The state of the \<open>AddCamera\<close> page: its six \<open>useState\<close> cells.\<close>

record AddCamera =
  formData :: CameraCreate
  existingCameras :: "Camera list"
  loading :: bool
  error :: "jsstring option"
  success :: "jsstring option"
  nameExists :: bool

definition initial :: AddCamera where
  "initial = \<lparr>formData = \<lparr>name = [], url = [], fps = Finite 5\<rparr>, existingCameras = [],
              loading = False, error = None, success = None, nameExists = False\<rparr>"

text \<open>
  The effect on \<open>[formData.name, existingCameras]\<close>:
  \<open>existingCameras.some(cam => cam.name.toLowerCase() === formData.name.toLowerCase())\<close>
  is stored in \<open>nameExists\<close>. \<open>String.prototype.toLowerCase\<close> is the engine's (the case
  mapping of Unicode); the page is modelled for any such function, the parameter
  \<open>toLowerCase\<close>.
\<close>

definition name_in_use :: "(jsstring \<Rightarrow> jsstring) \<Rightarrow> Camera list \<Rightarrow> jsstring \<Rightarrow> bool" where
  "name_in_use toLowerCase cams n \<longleftrightarrow>
     (\<exists>cam \<in> set cams. toLowerCase (name cam) = toLowerCase n)"

definition name_effect :: "(jsstring \<Rightarrow> jsstring) \<Rightarrow> AddCamera \<Rightarrow> AddCamera" where
  "name_effect toLowerCase st =
     st\<lparr>nameExists := name_in_use toLowerCase (existingCameras st) (name (formData st))\<rparr>"

text \<open>
  \<open>handleInputChange\<close>: \<open>e.target.name\<close> selects the field (a name other than the three
  fields would add a property that nothing reads), and the \<open>fps\<close> field stores
  \<open>parseInt(value) || 1\<close>; both messages are cleared.
\<close>

definition handleInputChange :: "jsstring \<Rightarrow> jsstring \<Rightarrow> AddCamera \<Rightarrow> AddCamera" where
  "handleInputChange target_name v st =
     st\<lparr>formData :=
          (if target_name = js ''fps'' then (formData st)\<lparr>fps := parseInt_or_1 v\<rparr>
           else if target_name = js ''name'' then (formData st)\<lparr>name := v\<rparr>
           else if target_name = js ''url'' then (formData st)\<lparr>url := v\<rparr>
           else formData st),
        error := None, success := None\<rparr>"

text \<open>
  \<open>handleSubmit\<close> up to its \<open>await\<close>: the new state and the argument of \<open>createCamera\<close>
  when it is called. The three early returns set a message and call nothing. In the
  messages the accented letters are the code units \<open>E1\<close>, \<open>E2\<close>, \<open>E9\<close>, \<open>ED\<close> and \<open>F3\<close>,
  and \<open>22\<close> is the double quote.
\<close>

definition msg_name_exists :: "jsstring \<Rightarrow> jsstring" where
  "msg_name_exists n =
     js (''J'' @ [CHR 0xE1] @ '' existe uma c'' @ [CHR 0xE2] @ ''mera com o nome '' @ [CHR 0x22])
     @ n @ js [CHR 0x22]"

definition msg_name_required :: jsstring where
  "msg_name_required =
     js (''O nome da c'' @ [CHR 0xE2] @ ''mera '' @ [CHR 0xE9] @ '' obrigat'' @ [CHR 0xF3] @ ''rio'')"

definition msg_url_required :: jsstring where
  "msg_url_required =
     js (''O link da c'' @ [CHR 0xE2] @ ''mera/v'' @ [CHR 0xED] @ ''deo '' @ [CHR 0xE9]
         @ '' obrigat'' @ [CHR 0xF3] @ ''rio'')"

definition handleSubmit :: "AddCamera \<Rightarrow> AddCamera \<times> CameraCreate option" where
  "handleSubmit st =
     (if nameExists st then
        (st\<lparr>error := Some (msg_name_exists (name (formData st)))\<rparr>, None)
      else if trim (name (formData st)) = [] then
        (st\<lparr>error := Some msg_name_required\<rparr>, None)
      else if trim (url (formData st)) = [] then
        (st\<lparr>error := Some msg_url_required\<rparr>, None)
      else
        (st\<lparr>loading := True, error := None\<rparr>,
         Some \<lparr>name = trim (name (formData st)), url = trim (url (formData st)),
               fps = fps (formData st)\<rparr>))"

text \<open>
  The rest of \<open>handleSubmit\<close>, after the \<open>await\<close>. \<open>submitted\<close> is the \<open>formData\<close> of the
  render that submitted. A rejection shows \<open>err.response?.data?.detail\<close> or else the
  default message.
\<close>

definition msg_created :: "jsstring \<Rightarrow> jsstring" where
  "msg_created n =
     js (''C'' @ [CHR 0xE2] @ ''mera '' @ [CHR 0x22]) @ n
     @ js ([CHR 0x22] @ '' adicionada com sucesso!'')"

definition msg_create_failed :: jsstring where
  "msg_create_failed = js (''Erro ao adicionar c'' @ [CHR 0xE2] @ ''mera'')"

definition createCamera_resolved :: "CameraCreate \<Rightarrow> AddCamera \<Rightarrow> AddCamera" where
  "createCamera_resolved submitted st =
     st\<lparr>success := Some (msg_created (name submitted)),
        formData := \<lparr>name = [], url = [], fps = Finite 5\<rparr>,
        loading := False\<rparr>"

definition createCamera_rejected :: "http_error \<Rightarrow> AddCamera \<Rightarrow> AddCamera" where
  "createCamera_rejected err st =
     st\<lparr>error := Some (case err of
                         Rejected (Some detail) \<Rightarrow>
                           if detail = [] then msg_create_failed else detail
                       | Rejected None \<Rightarrow> msg_create_failed),
        loading := False\<rparr>"

text \<open>\<open>fetchCameras\<close>: the list is replaced when \<open>listCameras\<close> resolves.\<close>

definition fetchCameras :: "Camera list promise \<Rightarrow> AddCamera \<Rightarrow> AddCamera" where
  "fetchCameras result st =
     (case result of Inr cameras \<Rightarrow> st\<lparr>existingCameras := cameras\<rparr> | Inl _ \<Rightarrow> st)"

text \<open>
  What happens to the page: an input changes, the form is submitted, a pending
  \<open>createCamera\<close> or \<open>listCameras\<close> settles. The name effect runs after each of them,
  before the next is handled. \<open>run\<close> gives the state after a sequence of events and the
  arguments of the \<open>createCamera\<close> calls made, in order.
\<close>

datatype event =
    InputChange jsstring jsstring
  | Submit
  | CreateResolved CameraCreate
  | CreateRejected http_error
  | CamerasFetched "Camera list promise"

fun handle :: "AddCamera \<Rightarrow> event \<Rightarrow> AddCamera \<times> CameraCreate option" where
  "handle st (InputChange target_name v) = (handleInputChange target_name v st, None)"
| "handle st Submit = handleSubmit st"
| "handle st (CreateResolved submitted) = (createCamera_resolved submitted st, None)"
| "handle st (CreateRejected err) = (createCamera_rejected err st, None)"
| "handle st (CamerasFetched result) = (fetchCameras result st, None)"

fun run ::
  "(jsstring \<Rightarrow> jsstring) \<Rightarrow> AddCamera \<Rightarrow> event list \<Rightarrow> AddCamera \<times> CameraCreate list" where
  "run toLowerCase st [] = (st, [])"
| "run toLowerCase st (e # es) =
     (case handle st e of (st', call) \<Rightarrow>
        (case run toLowerCase (name_effect toLowerCase st') es of (st'', calls) \<Rightarrow>
           (st'', (case call of None \<Rightarrow> [] | Some c \<Rightarrow> [c]) @ calls)))"



section \<open>The streaming coordinator\<close>

text \<open>
  The sources hold the front end only. The Worker Manager, the Stream Worker and the
  Publisher are written here from sections 3 and 4 of the specification.
\<close>

text \<open>Modelled from the spec: the states of a Stream Worker (4.2); no worker code is in the sources.\<close>

datatype LifecycleState = Stopped | Starting | Running | Error

text \<open>Modelled from the spec: \<open>CameraConfig\<close> (3), owned by the Camera Registry, which is not in the sources.\<close>

record CameraConfig =
  cfg_id :: string
  cfg_name :: string
  sourceUrl :: string
  targetFps :: nat
  cfg_active :: bool

text \<open>
  Modelled from the spec: \<open>WorkerState\<close> (3), not in the sources. The capture handle is the
  source it has open, if any; \<open>w_sourceUrl\<close> and \<open>w_targetFps\<close> are the configuration the
  worker was started with (\<open>targetIntervalMillis\<close> is \<open>1000 / w_targetFps\<close>).
\<close>

record WorkerState =
  cameraId :: string
  lifecycleState :: LifecycleState
  captureHandle :: "string option"
  retryCount :: nat
  lastError :: "string option"
  w_sourceUrl :: string
  w_targetFps :: nat

text \<open>Modelled from the spec: \<open>FrameSnapshot\<close> (3), not in the sources.\<close>

record FrameSnapshot =
  imageBytes :: string
  capturedAt :: nat

text \<open>
  Modelled from the spec: \<open>AlertSnapshot\<close> (3), not in the sources; \<open>hasViolations\<close> is
  derived (\<open>violations\<close> non-empty) and is not stored.
\<close>

record AlertSnapshot =
  personCount :: nat
  epiCount :: nat
  snapshot_violations :: "(int \<times> nat) list"
  computedAt :: nat

text \<open>
  Modelled from the spec: the detections of a processed frame as the worker partitions
  them by semantic category (4.2), not in the sources: the class ids of the person
  detections, of the detections of present PPE items and of the detections whose class
  denotes a missing PPE item. (Which class falls in which category is not in the spec;
  bounding box and confidence play no part in the aggregation.)
\<close>

record Detections =
  person_detections :: "int list"
  ppe_detections :: "int list"
  violation_detections :: "int list"

text \<open>
  Modelled from the spec: counting one more detection of a class in the list of groups
  (4.2: "grouped by class id with per-class counts"), not in the sources: the entry of
  the class gets one more, a class met for the first time gets an entry of count 1 at
  the end.
\<close>

definition count_class :: "(int \<times> nat) list \<Rightarrow> int \<Rightarrow> (int \<times> nat) list" where
  "count_class groups c =
     AList.update c (case map_of groups c of None \<Rightarrow> 1 | Some n \<Rightarrow> n + 1) groups"

text \<open>
  Modelled from the spec: the violations of a frame grouped by class id (4.2), not in the
  sources: one pass over the detections of missing items.
\<close>

definition group_by_class :: "int list \<Rightarrow> (int \<times> nat) list" where
  "group_by_class cs = foldl count_class [] cs"

text \<open>
  Modelled from the spec: the alert aggregation (4.2), not in the sources: the count of
  person detections, the count of detections of present PPE items, and the violations
  grouped by class id, stamped with the time of the frame.
\<close>

definition aggregate :: "nat \<Rightarrow> Detections \<Rightarrow> AlertSnapshot" where
  "aggregate t d =
     \<lparr>personCount = length (person_detections d), epiCount = length (ppe_detections d),
      snapshot_violations = group_by_class (violation_detections d), computedAt = t\<rparr>"

text \<open>
  Modelled from the spec: the state of the coordinator, not in the sources: the keyed
  collection of workers of the Worker Manager (4.1) and the last-value store of the
  Publisher (4.3), one pair of snapshots per camera id that has published.
\<close>

record Coordinator =
  workers :: "WorkerState list"
  published :: "string \<rightharpoonup> FrameSnapshot \<times> AlertSnapshot"

text \<open>Modelled from the spec: the coordinator before any reconciliation; not in the sources.\<close>

definition no_workers :: Coordinator where
  "no_workers = \<lparr>workers = [], published = Map.empty\<rparr>"

text \<open>
  Modelled from the spec: a worker as the Worker Manager creates and starts it (4.1, 4.2),
  not in the sources: in \<open>Starting\<close>, about to open the source, with no handle, no retry
  and no error yet.
\<close>

definition new_worker :: "CameraConfig \<Rightarrow> WorkerState" where
  "new_worker c =
     \<lparr>cameraId = cfg_id c, lifecycleState = Starting, captureHandle = None, retryCount = 0,
      lastError = None, w_sourceUrl = sourceUrl c, w_targetFps = targetFps c\<rparr>"

text \<open>
  Modelled from the spec: starting a worker (4.1), not in the sources: "starting a second
  worker for an id already running is rejected as a no-op, not an error".
\<close>

definition startWorker :: "CameraConfig \<Rightarrow> WorkerState list \<Rightarrow> WorkerState list" where
  "startWorker c ws = (if cfg_id c \<in> cameraId ` set ws then ws else ws @ [new_worker c])"

text \<open>
  Modelled from the spec: the running workers that a reconciliation stops (4.1), not in the
  sources: those "whose config is now active=false, or missing (deleted), or whose
  sourceUrl/targetFps changed".
\<close>

definition must_stop :: "CameraConfig list \<Rightarrow> WorkerState \<Rightarrow> bool" where
  "must_stop desiredConfigs w =
     (case find (\<lambda>c. cfg_id c = cameraId w) desiredConfigs of
        None \<Rightarrow> True
      | Some c \<Rightarrow> \<not> cfg_active c \<or> sourceUrl c \<noteq> w_sourceUrl w \<or> targetFps c \<noteq> w_targetFps w)"

text \<open>
  Modelled from the spec: the workers that stay through a reconciliation (4.1), not in the
  sources: the running ones (a \<open>Stopped\<close> worker runs no loop) that need not stop.
\<close>

definition stays :: "CameraConfig list \<Rightarrow> WorkerState \<Rightarrow> bool" where
  "stays desiredConfigs w \<longleftrightarrow> lifecycleState w \<noteq> Stopped \<and> \<not> must_stop desiredConfigs w"

text \<open>
  Modelled from the spec: \<open>reconcile(desiredConfigs)\<close> (4.1), not in the sources. The workers
  that must stop are stopped and leave the collection, their snapshots are discarded
  (3: "discarded when the worker stops"), and for each active config with no running
  worker one is created and started.
\<close>

definition reconcile :: "CameraConfig list \<Rightarrow> Coordinator \<Rightarrow> Coordinator" where
  "reconcile desiredConfigs st =
     (let kept = filter (stays desiredConfigs) (workers st)
      in \<lparr>workers = foldl (\<lambda>ws c. startWorker c ws) kept (filter cfg_active desiredConfigs),
          published = (\<lambda>i. if i \<in> cameraId ` set kept then published st i else None)\<rparr>)"

text \<open>
  Modelled from the spec: \<open>stop()\<close> of a worker (4.2), not in the sources: from any state to
  \<open>Stopped\<close>, the capture handle released.
\<close>

definition stop :: "WorkerState \<Rightarrow> WorkerState" where
  "stop w = w\<lparr>lifecycleState := Stopped, captureHandle := None\<rparr>"

text \<open>
  Modelled from the spec: \<open>stopAll()\<close> (4.1), not in the sources: the teardown of every
  worker, every handle released; each stopped worker clears its snapshots (4.3). The
  stopped workers keep their place in the collection (4.1: "reconciliation is the only
  path that creates or destroys Stream Workers; nothing else mutates the worker set");
  the next reconciliation drops them.
\<close>

definition stopAll :: "Coordinator \<Rightarrow> Coordinator" where
  "stopAll st = \<lparr>workers = map stop (workers st), published = Map.empty\<rparr>"

text \<open>
  Modelled from the spec: what happens to a worker in its loop (4.2), not in the sources:
  the source opens or fails to open, a read fails, a frame is processed (the frame as
  annotated and its detections), the detector fails on a frame, the backoff ends.
\<close>

datatype worker_event =
    OpenSucceeded
  | OpenFailed string
  | ReadFailed string
  | FrameProcessed FrameSnapshot Detections
  | DetectorFailed FrameSnapshot
  | RetryDue

text \<open>
  Modelled from the spec: the transitions of the state machine (4.2), not in the sources.
  \<open>Starting\<close> goes to \<open>Running\<close> (the retry count reset, section 8) or to \<open>Error\<close>;
  \<open>Running\<close> goes to \<open>Error\<close> on a read failure; entering \<open>Error\<close> records the error and
  counts a retry; \<open>Error\<close> goes back to \<open>Starting\<close> when the backoff ends. An event that
  does not fit the state changes nothing.
\<close>

fun transition :: "WorkerState \<Rightarrow> worker_event \<Rightarrow> WorkerState" where
  "transition w OpenSucceeded =
     (if lifecycleState w = Starting
      then w\<lparr>lifecycleState := Running, captureHandle := Some (w_sourceUrl w), retryCount := 0\<rparr>
      else w)"
| "transition w (OpenFailed e) =
     (if lifecycleState w = Starting
      then w\<lparr>lifecycleState := Error, lastError := Some e, retryCount := retryCount w + 1\<rparr>
      else w)"
| "transition w (ReadFailed e) =
     (if lifecycleState w = Running
      then w\<lparr>lifecycleState := Error, captureHandle := None, lastError := Some e,
             retryCount := retryCount w + 1\<rparr>
      else w)"
| "transition w RetryDue =
     (if lifecycleState w = Error then w\<lparr>lifecycleState := Starting\<rparr> else w)"
| "transition w _ = w"

text \<open>
  Modelled from the spec: \<open>publish(cameraId, frame, alerts)\<close> of the Publisher (4.3), not in
  the sources: both snapshots are replaced in one step.
\<close>

definition publish :: "string \<Rightarrow> FrameSnapshot \<Rightarrow> AlertSnapshot \<Rightarrow> Coordinator \<Rightarrow> Coordinator" where
  "publish i frame alerts st = st\<lparr>published := (published st)(i \<mapsto> (frame, alerts))\<rparr>"

text \<open>
  Modelled from the spec: \<open>clear(cameraId)\<close> of the Publisher (4.3), not in the sources: the
  reads of that camera report "not available" until a worker publishes again.
\<close>

definition clear :: "string \<Rightarrow> Coordinator \<Rightarrow> Coordinator" where
  "clear i st = st\<lparr>published := (published st)(i := None)\<rparr>"

text \<open>
  Modelled from the spec: what a \<open>Running\<close> worker publishes (4.2), not in the sources: a
  processed frame with the alert snapshot aggregated from its detections; after a
  detector failure the raw frame with the previous alert snapshot, which is retained
  (nothing when there is none yet).
\<close>

definition publication :: "WorkerState \<Rightarrow> worker_event \<Rightarrow> Coordinator \<Rightarrow> Coordinator" where
  "publication w ev st =
     (if lifecycleState w \<noteq> Running then st
      else case ev of
        FrameProcessed frame detections \<Rightarrow>
          publish (cameraId w) frame (aggregate (capturedAt frame) detections) st
      | DetectorFailed frame \<Rightarrow>
          (case published st (cameraId w) of
             None \<Rightarrow> st
           | Some (_, previous) \<Rightarrow> publish (cameraId w) frame previous st)
      | _ \<Rightarrow> st)"

text \<open>
  Modelled from the spec: an event of the worker of camera \<open>i\<close> applied to the coordinator,
  not in the sources: the worker makes its transition and publishes.
\<close>

definition worker_step :: "string \<Rightarrow> worker_event \<Rightarrow> Coordinator \<Rightarrow> Coordinator" where
  "worker_step i ev st =
     (foldl (\<lambda>s w. if cameraId w = i then publication w ev s else s) st (workers st))
       \<lparr>workers := map (\<lambda>w. if cameraId w = i then transition w ev else w) (workers st)\<rparr>"

text \<open>
  Modelled from the spec: the operations that change the coordinator, not in the sources:
  the two of the Worker Manager (4.1), the events of the workers (4.2) and the two writes
  of the Publisher (4.3). The reads of the Publisher and the Access Layer return a value
  and leave the state as it is.
\<close>

datatype operation =
    Reconcile "CameraConfig list"
  | StopAll
  | WorkerEvent string worker_event
  | Publish string FrameSnapshot AlertSnapshot
  | Clear string

text \<open>
  Modelled from the spec: the effect of an operation on the coordinator, not in the
  sources: each operation is the function of its name.
\<close>

fun exec :: "Coordinator \<Rightarrow> operation \<Rightarrow> Coordinator" where
  "exec st (Reconcile desiredConfigs) = reconcile desiredConfigs st"
| "exec st StopAll = stopAll st"
| "exec st (WorkerEvent i ev) = worker_step i ev st"
| "exec st (Publish i frame alerts) = publish i frame alerts st"
| "exec st (Clear i) = clear i st"

text \<open>
  Modelled from the spec: the operations in which the Publisher is written by the workers
  only (4.3: "written by one worker, read by many"), not in the sources: all but a
  \<open>publish\<close> from elsewhere.
\<close>

definition by_workers :: "operation \<Rightarrow> bool" where
  "by_workers op = (case op of Publish _ _ _ \<Rightarrow> False | _ \<Rightarrow> True)"

section \<open>Predicates of the statements\<close>

text \<open>
  The frames that a sequence of operations hands to the worker of camera \<open>i\<close> as
  processed, each with its detections.
\<close>

fun processed :: "string \<Rightarrow> operation list \<Rightarrow> (FrameSnapshot \<times> Detections) list" where
  "processed i [] = []"
| "processed i (WorkerEvent j (FrameProcessed f d) # ops) =
     (if j = i then (f, d) # processed i ops else processed i ops)"
| "processed i (_ # ops) = processed i ops"

text \<open>
  Every alert snapshot of the store is the aggregate of a frame among those that \<open>A\<close>
  allows for its camera.
\<close>

definition holds_aggregates ::
  "(string \<Rightarrow> (FrameSnapshot \<times> Detections) set) \<Rightarrow> Coordinator \<Rightarrow> bool" where
  "holds_aggregates A st \<longleftrightarrow>
     (\<forall>j f a. published st j = Some (f, a) \<longrightarrow>
        (\<exists>(g, d) \<in> A j. a = aggregate (capturedAt g) d))"


text \<open>The name effect has run: \<open>nameExists\<close> is what it computes from the state.\<close>

definition in_sync :: "(jsstring \<Rightarrow> jsstring) \<Rightarrow> AddCamera \<Rightarrow> bool" where
  "in_sync toLowerCase st \<longleftrightarrow>
     nameExists st = name_in_use toLowerCase (existingCameras st) (name (formData st))"

section \<open>Example inputs\<close>

text \<open>A snapshot with violations of the classes 7 (twice), -3, 5 and 42, and cameras.\<close>

definition frame_7_m3_5_7_42 :: CameraAlerts where
  "frame_7_m3_5_7_42 =
     \<lparr>person_count = 2, epi_count = 0, has_violations = True,
      violations = [\<lparr>class_id = 7, count = 1\<rparr>, \<lparr>class_id = - 3, count = 1\<rparr>,
                    \<lparr>class_id = 5, count = 1\<rparr>, \<lparr>class_id = 7, count = 1\<rparr>,
                    \<lparr>class_id = 42, count = 1\<rparr>]\<rparr>"

definition entrance_camera :: Camera where
  "entrance_camera =
     \<lparr>name = js ''Entrada'', url = js ''0'', fps = Finite 5, id' = js ''c1'', active = True\<rparr>"

definition cam_a :: Camera where
  "cam_a = \<lparr>name = js ''A'', url = js ''0'', fps = Finite 5, id' = js ''a'', active = True\<rparr>"

definition cam_b :: Camera where
  "cam_b = \<lparr>name = js ''B'', url = js ''1'', fps = Finite 10, id' = js ''b'', active = True\<rparr>"

definition cam_c :: Camera where
  "cam_c = \<lparr>name = js ''C'', url = js ''2'', fps = Finite 30, id' = js ''c'', active = False\<rparr>"

text \<open>
  A listed camera named \<open>Gate\<close>; the list arrives, then that very name and a url are
  typed. The slider is moved to 30 in a form with a name and a url, which is submitted.
\<close>

definition gate_camera :: Camera where
  "gate_camera =
     \<lparr>name = js ''Gate'', url = js ''0'', fps = Finite 5, id' = js ''1'', active = True\<rparr>"

definition typed_Gate :: "event list" where
  "typed_Gate = [CamerasFetched (Inr [gate_camera]), InputChange (js ''name'') (js ''Gate''),
                 InputChange (js ''url'') (js ''rtsp://10.0.0.2/live'')]"


text \<open>
  The camera of the scenarios of the specification (8); its worker opens the source and
  processes a frame with one person and the missing items 7, 5 and 7 again.
\<close>

definition config_c1 :: CameraConfig where
  "config_c1 = \<lparr>cfg_id = ''c1'', cfg_name = ''Dock'', sourceUrl = ''fake://ok'', targetFps = 5,
         cfg_active = True\<rparr>"

definition frame1 :: FrameSnapshot where
  "frame1 = \<lparr>imageBytes = ''jpeg'', capturedAt = 10\<rparr>"

definition detections1 :: Detections where
  "detections1 =
     \<lparr>person_detections = [0], ppe_detections = [], violation_detections = [7, 5, 7]\<rparr>"

definition c1_running :: "operation list" where
  "c1_running = [Reconcile [config_c1], WorkerEvent ''c1'' OpenSucceeded,
                 WorkerEvent ''c1'' (FrameProcessed frame1 detections1)]"

section \<open>Lemmas on the violation counts\<close>

lemma bump_distinct: "distinct (map fst cs) \<Longrightarrow> distinct (map fst (bump cs v))"
  by (simp add: bump_def distinct_update)

lemma foldl_bump_distinct:
  "distinct (map fst cs) \<Longrightarrow> distinct (map fst (foldl bump cs vs))"
  by (induction vs arbitrary: cs) (simp_all add: bump_distinct)

lemma map_of_bump:
  "map_of (bump cs v) k =
     (if k = class_id v then Some (count_or_zero cs k + 1) else map_of cs k)"
  by (simp add: bump_def update_conv')

lemma count_or_zero_bump:
  "count_or_zero (bump cs v) k =
     (if k = class_id v then count_or_zero cs k + 1 else count_or_zero cs k)"
  by (simp add: count_or_zero_def map_of_bump)

text \<open>
  The pass over the list, from any object \<open>cs\<close>: a class of the list ends with its old
  count plus the number of its entries, any other key keeps what it had.
\<close>

lemma map_of_foldl_bump:
  "map_of (foldl bump cs vs) k =
     (if k \<in> class_id ` set vs
      then Some (count_or_zero cs k + length (filter (\<lambda>v. class_id v = k) vs))
      else map_of cs k)"
proof (induction vs arbitrary: cs)
  case Nil
  then show ?case by simp
next
  case (Cons v vs)
  then show ?case
    by (auto simp: map_of_bump count_or_zero_bump filter_empty_conv image_iff)
qed

lemma set_Object_entries: "set (Object_entries obj) = set obj"
  by (auto simp: Object_entries_def)

lemma length_Object_entries: "length (Object_entries obj) = length obj"
  by (simp add: Object_entries_def sum_length_filter_compl)

lemma distinct_Object_entries:
  assumes d: "distinct (map fst obj)"
  shows "distinct (map fst (Object_entries obj))"
proof -
  let ?A = "filter (\<lambda>p. is_array_index (fst p)) obj"
  let ?B = "filter (\<lambda>p. \<not> is_array_index (fst p)) obj"
  have "distinct (map fst ?A)" using d by (rule distinct_map_filter)
  then have a: "distinct (map fst (sort_key fst ?A))"
    by (simp add: distinct_map)
  have b: "distinct (map fst ?B)" using d by (rule distinct_map_filter)
  have "fst ` set (sort_key fst ?A) \<inter> fst ` set ?B = {}" by auto
  with a b show ?thesis by (simp add: Object_entries_def)
qed

lemma distinct_getViolationCounts: "distinct (map fst (getViolationCounts alerts))"
  by (cases alerts) (simp_all add: getViolationCounts_def foldl_bump_distinct)

lemma entry_iff:
  "(c, n) \<in> set (Object_entries (getViolationCounts (Some a))) \<longleftrightarrow>
     c \<in> class_id ` set (violations a) \<and> n = length (filter (\<lambda>v. class_id v = c) (violations a))"
proof -
  have "distinct (map fst (foldl bump [] (violations a)))"
    by (rule foldl_bump_distinct) simp
  then have "(c, n) \<in> set (foldl bump [] (violations a)) \<longleftrightarrow>
      map_of (foldl bump [] (violations a)) c = Some n"
    by simp
  then show ?thesis
    by (auto simp: set_Object_entries getViolationCounts_def map_of_foldl_bump count_or_zero_def)
qed

lemma items_keep_entries:
  "map (\<lambda>i. (item_class i, item_count i)) (map violation_item es) = es"
  by (induction es) (auto simp: violation_item_def)

section \<open>The violations shown by the camera card\<close>

text \<open>
  C3. A violation whose class id is not a key of \<open>VIOLATION_INFO\<close> is shown all the same.
  For an active camera and a snapshot whose flag \<open>has_violations\<close> says whether
  \<open>violations\<close> is non-empty, the panel's list has one item per entry of the grouped counts,
  none left out; every violation entry of the snapshot has an item with its class id and
  the count of its class, and for an unmapped class id that item has the default icon and
  the default label, which spells the class id.
\<close>

theorem unmapped_violation_shown:
  assumes "active camera"
    and "has_violations a \<longleftrightarrow> violations a \<noteq> []"
    and "v \<in> set (violations a)"
  shows "\<exists>panel items it.
      alerts_panel camera (Some a) = Some panel \<and>
      violations_list panel = Some items \<and>
      map (\<lambda>i. (item_class i, item_count i)) items
        = Object_entries (getViolationCounts (Some a)) \<and>
      it \<in> set items \<and>
      item_class it = class_id v \<and>
      item_count it = length (filter (\<lambda>w. class_id w = class_id v) (violations a)) \<and>
      (VIOLATION_INFO (class_id v) = None \<longrightarrow>
         item_icon it = AlertTriangle \<and>
         item_name it = ''Viola'' @ c_cedil @ a_tilde @ ''o '' @ String_of (class_id v))"
proof -
  let ?es = "Object_entries (getViolationCounts (Some a))"
  let ?n = "length (filter (\<lambda>w. class_id w = class_id v) (violations a))"
  let ?it = "violation_item (class_id v, ?n)"
  from assms(2,3) have hv: "hasViolations (Some a)"
    by (auto simp: hasViolations_def)
  have e: "(class_id v, ?n) \<in> set ?es"
    using assms(3) by (simp add: entry_iff)
  have m: "map (\<lambda>i. (item_class i, item_count i)) (map violation_item ?es) = ?es"
    by (rule items_keep_entries)
  let ?panel = "\<lparr>has_alerts = True, violations_list = Some (map violation_item ?es),
      persons = shown_person_count (Some a), epis = shown_epi_count (Some a)\<rparr>"
  have p: "alerts_panel camera (Some a) = Some ?panel"
    using assms(1) hv by (simp add: alerts_panel_def)
  have l: "violations_list ?panel = Some (map violation_item ?es)"
    by simp
  have i: "?it \<in> set (map violation_item ?es)"
    using e by (simp add: image_iff) blast
  have d: "VIOLATION_INFO (class_id v) = None \<longrightarrow>
      item_icon ?it = AlertTriangle \<and>
      item_name ?it = ''Viola'' @ c_cedil @ a_tilde @ ''o '' @ String_of (class_id v)"
    by (simp add: violation_item_def displayInfo_def)
  have c: "item_class ?it = class_id v \<and> item_count ?it = ?n"
    by (simp add: violation_item_def)
  show ?thesis
  proof (intro exI conjI)
    show "alerts_panel camera (Some a) = Some ?panel" by (rule p)
    show "violations_list ?panel = Some (map violation_item ?es)" by (rule l)
    show "map (\<lambda>i. (item_class i, item_count i)) (map violation_item ?es) = ?es" by (rule m)
    show "?it \<in> set (map violation_item ?es)" by (rule i)
    show "item_class ?it = class_id v" using c by simp
    show "item_count ?it = ?n" using c by simp
    show "VIOLATION_INFO (class_id v) = None \<longrightarrow>
      item_icon ?it = AlertTriangle \<and>
      item_name ?it = ''Viola'' @ c_cedil @ a_tilde @ ''o '' @ String_of (class_id v)"
      by (rule d)
  qed
qed

lemma String_of_42: "String_of 42 = ''42''"
  by code_simp

lemma info42: "VIOLATION_INFO 42 = None"
  by (simp add: VIOLATION_INFO_def)

theorem unmapped_violation_shown_witness:
  "active entrance_camera \<and>
   (has_violations frame_7_m3_5_7_42 \<longleftrightarrow> violations frame_7_m3_5_7_42 \<noteq> []) \<and>
   \<lparr>class_id = 42, count = 1\<rparr> \<in> set (violations frame_7_m3_5_7_42) \<and>
   VIOLATION_INFO 42 = None \<and>
   (\<exists>panel items it.
      alerts_panel entrance_camera (Some frame_7_m3_5_7_42) = Some panel \<and>
      violations_list panel = Some items \<and>
      it \<in> set items \<and> item_class it = 42 \<and> item_count it = 1 \<and>
      item_icon it = AlertTriangle \<and>
      item_name it = ''Viola'' @ c_cedil @ a_tilde @ ''o 42'')"
proof -
  have h1: "active entrance_camera"
    by (simp add: entrance_camera_def)
  have h2: "has_violations frame_7_m3_5_7_42 \<longleftrightarrow> violations frame_7_m3_5_7_42 \<noteq> []"
    by (simp add: frame_7_m3_5_7_42_def)
  have h3: "\<lparr>class_id = 42, count = 1\<rparr> \<in> set (violations frame_7_m3_5_7_42)"
    by (simp add: frame_7_m3_5_7_42_def)
  have n: "length (filter (\<lambda>w. class_id w = 42) (violations frame_7_m3_5_7_42)) = 1"
    by (simp add: frame_7_m3_5_7_42_def)
  from unmapped_violation_shown [OF h1 h2 h3] h1 h2 h3 n info42 String_of_42
  show ?thesis by auto
qed

section \<open>The camera list of the dashboard\<close>

text \<open>
  C10. When \<open>deleteCamera(id)\<close> resolves, the new list is the previous one without the
  entries of that id: it is a subsequence of the previous list (the entries kept are
  unchanged and in their order), an entry of the deleted id occurs in it no more, and
  every other entry occurs as often as before. When the toggle's \<open>updateCamera\<close>
  resolves, the new list has the length of the previous one, the server's answer at the
  positions of the matching id, and the previous entry at every other position.
\<close>

theorem dashboard_delete_toggle_frame:
  "subseq (handleDeleteCamera (Inr ()) i prev) prev \<and>
   (\<forall>cam. count_list (handleDeleteCamera (Inr ()) i prev) cam
      = (if id' cam = i then 0 else count_list prev cam)) \<and>
   length (handleToggleCamera (Inr updated) i prev) = length prev \<and>
   (\<forall>k < length prev. handleToggleCamera (Inr updated) i prev ! k
      = (if id' (prev ! k) = i then updated else prev ! k))"
proof (intro conjI allI impI)
  show "subseq (handleDeleteCamera (Inr ()) i prev) prev"
    by (simp add: handleDeleteCamera_def)
  show "count_list (handleDeleteCamera (Inr ()) i prev) cam
      = (if id' cam = i then 0 else count_list prev cam)" for cam
    unfolding handleDeleteCamera_def by (induction prev) auto
  show "length (handleToggleCamera (Inr updated) i prev) = length prev"
    by (simp add: handleToggleCamera_def)
  show "handleToggleCamera (Inr updated) i prev ! k
      = (if id' (prev ! k) = i then updated else prev ! k)" if "k < length prev" for k
    using that by (simp add: handleToggleCamera_def)
qed

theorem dashboard_delete_toggle_frame_witness:
  "subseq (handleDeleteCamera (Inr ()) (js ''b'') [cam_a, cam_b, cam_c]) [cam_a, cam_b, cam_c] \<and>
   count_list (handleDeleteCamera (Inr ()) (js ''b'') [cam_a, cam_b, cam_c]) cam_b = 0 \<and>
   count_list (handleDeleteCamera (Inr ()) (js ''b'') [cam_a, cam_b, cam_c]) cam_c = 1 \<and>
   (1::nat) < length [cam_a, cam_b, cam_c] \<and>
   handleToggleCamera (Inr (cam_b\<lparr>active := False\<rparr>)) (js ''b'') [cam_a, cam_b, cam_c] ! 1
     = cam_b\<lparr>active := False\<rparr> \<and>
   handleToggleCamera (Inr (cam_b\<lparr>active := False\<rparr>)) (js ''b'') [cam_a, cam_b, cam_c] ! 2
     = cam_c"
proof -
  have c: "cam_a \<noteq> cam_b" "cam_b \<noteq> cam_c" "cam_a \<noteq> cam_c"
    by (simp_all add: cam_a_def cam_b_def cam_c_def)
  have d: "js ''a'' \<noteq> js ''b''" "js ''c'' \<noteq> js ''b''"
    by code_simp+
  have i: "id' cam_a = js ''a''" "id' cam_b = js ''b''" "id' cam_c = js ''c''"
    by (simp_all add: cam_a_def cam_b_def cam_c_def)
  from dashboard_delete_toggle_frame [of "js ''b''" "[cam_a, cam_b, cam_c]"
      "cam_b\<lparr>active := False\<rparr>"]
  show ?thesis using c d i by (simp add: numeral_2_eq_2)
qed

section \<open>The add-camera form\<close>






lemma field_names: "js ''name'' \<noteq> js ''fps''" "js ''url'' \<noteq> js ''fps''" "js ''url'' \<noteq> js ''name''"
  by code_simp+



lemma name_effect_formData [simp]: "formData (name_effect toLowerCase st) = formData st"
  by (simp add: name_effect_def)



lemma in_sync_name_effect: "in_sync toLowerCase (name_effect toLowerCase st)"
  by (simp add: in_sync_def name_effect_def)

lemma fst_run_Cons:
  "fst (run toLowerCase st (e # es))
     = fst (run toLowerCase (name_effect toLowerCase (fst (handle st e))) es)"
  by (simp split: prod.splits)

lemma run_in_sync: "in_sync toLowerCase st \<Longrightarrow> in_sync toLowerCase (fst (run toLowerCase st es))"
proof (induction es arbitrary: st)
  case Nil
  then show ?case by simp
next
  case (Cons e es)
  have "in_sync toLowerCase (name_effect toLowerCase (fst (handle st e)))"
    by (rule in_sync_name_effect)
  then have "in_sync toLowerCase (fst (run toLowerCase (name_effect toLowerCase (fst (handle st e))) es))"
    by (rule Cons.IH)
  then show ?case by (simp only: fst_run_Cons)
qed

lemma in_sync_initial: "in_sync toLowerCase initial"
  by (simp add: in_sync_def initial_def name_in_use_def)

lemma handleSubmit_in_use:
  assumes "in_sync toLowerCase st"
    and "name_in_use toLowerCase (existingCameras st) (name (formData st))"
  shows "handleSubmit st = (st\<lparr>error := Some (msg_name_exists (name (formData st)))\<rparr>, None)"
  using assms by (simp add: handleSubmit_def in_sync_def)

lemma handleSubmit_call:
  assumes "in_sync toLowerCase st"
  shows "snd (handleSubmit st) =
     (if \<not> name_in_use toLowerCase (existingCameras st) (name (formData st))
         \<and> trim (name (formData st)) \<noteq> [] \<and> trim (url (formData st)) \<noteq> []
      then Some \<lparr>name = trim (name (formData st)), url = trim (url (formData st)),
                 fps = fps (formData st)\<rparr>
      else None)"
  using assms by (simp add: handleSubmit_def in_sync_def)

text \<open>
  C9. Whatever function \<open>toLowerCase\<close> is: in the state reached by any sequence of events
  of the page, if the name entered equals the name of a listed camera once both are
  lowercased, \<open>handleSubmit\<close> calls nothing, sets the message that the name exists, and
  leaves the form data and the camera list as they were. \<open>createCamera\<close> is called
  exactly when no listed camera has that name (case-insensitively) and the trimmed name
  and the trimmed url are both non-empty, and then with the trimmed name, the trimmed
  url and the fps of the form.
\<close>

theorem submit_duplicate_name:
  "(let st = fst (run toLowerCase initial evs) in
     (name_in_use toLowerCase (existingCameras st) (name (formData st)) \<longrightarrow>
        snd (handleSubmit st) = None \<and>
        error (fst (handleSubmit st)) = Some (msg_name_exists (name (formData st))) \<and>
        formData (fst (handleSubmit st)) = formData st \<and>
        existingCameras (fst (handleSubmit st)) = existingCameras st) \<and>
     snd (handleSubmit st) =
       (if \<not> name_in_use toLowerCase (existingCameras st) (name (formData st))
           \<and> trim (name (formData st)) \<noteq> [] \<and> trim (url (formData st)) \<noteq> []
        then Some \<lparr>name = trim (name (formData st)), url = trim (url (formData st)),
                   fps = fps (formData st)\<rparr>
        else None))"
proof -
  have s: "in_sync toLowerCase (fst (run toLowerCase initial evs))"
    using in_sync_initial by (rule run_in_sync)
  show ?thesis
    unfolding Let_def using handleSubmit_in_use [OF s] handleSubmit_call [OF s] by simp
qed

lemma run_typed_Gate:
  "fst (run toLowerCase initial typed_Gate) =
     \<lparr>formData = \<lparr>name = js ''Gate'', url = js ''rtsp://10.0.0.2/live'', fps = Finite 5\<rparr>,
      existingCameras = [gate_camera], loading = False, error = None, success = None,
      nameExists = True\<rparr>"
  by (simp add: typed_Gate_def initial_def fetchCameras_def handleInputChange_def
      name_effect_def name_in_use_def gate_camera_def field_names)

theorem submit_duplicate_name_witness:
  "\<forall>toLowerCase.
     name_in_use toLowerCase (existingCameras (fst (run toLowerCase initial typed_Gate)))
       (name (formData (fst (run toLowerCase initial typed_Gate)))) \<and>
     snd (handleSubmit (fst (run toLowerCase initial typed_Gate))) = None \<and>
     error (fst (handleSubmit (fst (run toLowerCase initial typed_Gate))))
       = Some (msg_name_exists (js ''Gate'')) \<and>
     formData (fst (handleSubmit (fst (run toLowerCase initial typed_Gate))))
       = \<lparr>name = js ''Gate'', url = js ''rtsp://10.0.0.2/live'', fps = Finite 5\<rparr> \<and>
     existingCameras (fst (handleSubmit (fst (run toLowerCase initial typed_Gate))))
       = [gate_camera]"
proof
  fix toLowerCase :: "jsstring \<Rightarrow> jsstring"
  have u: "name_in_use toLowerCase [gate_camera] (js ''Gate'')"
    by (simp add: name_in_use_def gate_camera_def)
  from submit_duplicate_name [of toLowerCase typed_Gate] u
  show "name_in_use toLowerCase (existingCameras (fst (run toLowerCase initial typed_Gate)))
       (name (formData (fst (run toLowerCase initial typed_Gate)))) \<and>
     snd (handleSubmit (fst (run toLowerCase initial typed_Gate))) = None \<and>
     error (fst (handleSubmit (fst (run toLowerCase initial typed_Gate))))
       = Some (msg_name_exists (js ''Gate'')) \<and>
     formData (fst (handleSubmit (fst (run toLowerCase initial typed_Gate))))
       = \<lparr>name = js ''Gate'', url = js ''rtsp://10.0.0.2/live'', fps = Finite 5\<rparr> \<and>
     existingCameras (fst (handleSubmit (fst (run toLowerCase initial typed_Gate))))
       = [gate_camera]"
    by (simp add: Let_def run_typed_Gate)
qed



section \<open>The workers of the coordinator\<close>

lemma startWorker_ids:
  "distinct (map cameraId ws) \<Longrightarrow> distinct (map cameraId (startWorker c ws))"
  by (auto simp: startWorker_def new_worker_def)

lemma startWorkers_ids:
  "distinct (map cameraId ws) \<Longrightarrow> distinct (map cameraId (foldl (\<lambda>ws c. startWorker c ws) ws cs))"
  by (induction cs arbitrary: ws) (simp_all add: startWorker_ids)

lemma reconcile_ids:
  "distinct (map cameraId (workers st)) \<Longrightarrow> distinct (map cameraId (workers (reconcile cfgs st)))"
  by (simp add: reconcile_def Let_def startWorkers_ids distinct_map_filter)

lemma transition_id [simp]: "cameraId (transition w ev) = cameraId w"
  by (cases ev) simp_all

lemma workers_publication [simp]: "workers (publication w ev st) = workers st"
  by (auto simp: publication_def publish_def split: worker_event.splits option.splits)

lemma workers_foldl_publication [simp]:
  "workers (foldl (\<lambda>s w. if cameraId w = i then publication w ev s else s) st ws) = workers st"
  by (induction ws arbitrary: st) simp_all

lemma exec_ids:
  "\<forall>cfgs. op \<noteq> Reconcile cfgs \<Longrightarrow> map cameraId (workers (exec st op)) = map cameraId (workers st)"
  by (cases op) (simp_all add: stopAll_def stop_def worker_step_def publish_def clear_def comp_def)

lemma exec_distinct:
  assumes d: "distinct (map cameraId (workers st))"
  shows "distinct (map cameraId (workers (exec st op)))"
proof (cases "\<exists>cfgs. op = Reconcile cfgs")
  case True
  then show ?thesis using d reconcile_ids by auto
next
  case False
  then show ?thesis using d exec_ids [of op st] by simp
qed

lemma execs_distinct:
  "distinct (map cameraId (workers st)) \<Longrightarrow> distinct (map cameraId (workers (foldl exec st ops)))"
  by (induction ops arbitrary: st) (simp_all add: exec_distinct)

lemma startWorkers_present:
  "\<forall>c \<in> set cs. cfg_id c \<in> cameraId ` set ws \<Longrightarrow> foldl (\<lambda>ws c. startWorker c ws) ws cs = ws"
  by (induction cs arbitrary: ws) (simp_all add: startWorker_def)

lemma reconcile_noop:
  assumes "\<forall>w \<in> set (workers st). stays cfgs w"
    and "\<forall>c \<in> set cfgs. cfg_active c \<longrightarrow> cfg_id c \<in> cameraId ` set (workers st)"
  shows "workers (reconcile cfgs st) = workers st"
proof -
  have k: "filter (stays cfgs) (workers st) = workers st"
    using assms(1) by simp
  have "\<forall>c \<in> set (filter cfg_active cfgs). cfg_id c \<in> cameraId ` set (workers st)"
    using assms(2) by simp
  then show ?thesis
    by (simp add: reconcile_def Let_def k startWorkers_present)
qed

text \<open>
  C6. In every state that the coordinator reaches from the empty one, no two workers of
  the collection have the same camera id. Starting a worker for an id that has one
  returns the collection as it is, and a reconciliation in which every worker stays and
  every active config has its worker leaves the workers as they are. No operation other
  than \<open>reconcile\<close> adds a worker to the collection or removes one: the list of the
  workers' camera ids is the same after it (\<open>stopAll\<close> stops each worker in its place).
\<close>

theorem one_worker_per_camera:
  "distinct (map cameraId (workers (foldl exec no_workers ops))) \<and>
   (cfg_id c \<in> cameraId ` set ws \<longrightarrow> startWorker c ws = ws) \<and>
   ((\<forall>w \<in> set (workers st). stays cfgs w) \<and>
    (\<forall>c \<in> set cfgs. cfg_active c \<longrightarrow> cfg_id c \<in> cameraId ` set (workers st))
      \<longrightarrow> workers (reconcile cfgs st) = workers st) \<and>
   ((\<forall>cfgs. op \<noteq> Reconcile cfgs)
      \<longrightarrow> map cameraId (workers (exec st op)) = map cameraId (workers st))"
proof (intro conjI impI)
  show "distinct (map cameraId (workers (foldl exec no_workers ops)))"
    by (rule execs_distinct) (simp add: no_workers_def)
  show "startWorker c ws = ws" if "cfg_id c \<in> cameraId ` set ws"
    using that by (simp add: startWorker_def)
  show "workers (reconcile cfgs st) = workers st"
    if "(\<forall>w \<in> set (workers st). stays cfgs w) \<and>
      (\<forall>c \<in> set cfgs. cfg_active c \<longrightarrow> cfg_id c \<in> cameraId ` set (workers st))"
    using that reconcile_noop by blast
  show "map cameraId (workers (exec st op)) = map cameraId (workers st)"
    if "\<forall>cfgs. op \<noteq> Reconcile cfgs"
    using that by (rule exec_ids)
qed

lemma c1_running_workers:
  "workers (foldl exec no_workers c1_running) =
     [\<lparr>cameraId = ''c1'', lifecycleState = Running, captureHandle = Some ''fake://ok'',
       retryCount = 0, lastError = None, w_sourceUrl = ''fake://ok'', w_targetFps = 5\<rparr>]"
  by (simp add: c1_running_def no_workers_def reconcile_def config_c1_def startWorker_def new_worker_def
      worker_step_def publication_def publish_def)

theorem one_worker_per_camera_witness:
  "map cameraId (workers (foldl exec no_workers (c1_running @ [Reconcile [config_c1], Reconcile [config_c1]])))
     = [''c1''] \<and>
   cfg_id config_c1 \<in> cameraId ` set (workers (foldl exec no_workers c1_running)) \<and>
   startWorker config_c1 (workers (foldl exec no_workers c1_running))
     = workers (foldl exec no_workers c1_running) \<and>
   list_all (stays [config_c1]) (workers (foldl exec no_workers c1_running)) \<and>
   workers (reconcile [config_c1] (foldl exec no_workers c1_running))
     = workers (foldl exec no_workers c1_running) \<and>
   map cameraId (workers (exec (foldl exec no_workers c1_running) StopAll)) = [''c1'']"
proof -
  let ?st = "foldl exec no_workers c1_running"
  have s: "list_all (stays [config_c1]) (workers ?st)"
    by (simp add: c1_running_workers stays_def must_stop_def config_c1_def)
  have i: "cfg_id config_c1 \<in> cameraId ` set (workers ?st)"
    by (simp add: c1_running_workers config_c1_def)
  have h1: "\<forall>w \<in> set (workers ?st). stays [config_c1] w"
    using s by (simp add: list_all_iff)
  have h2: "\<forall>c \<in> set [config_c1]. cfg_active c \<longrightarrow> cfg_id c \<in> cameraId ` set (workers ?st)"
    using i by simp
  have h3: "\<forall>cfgs. StopAll \<noteq> Reconcile cfgs"
    by simp
  have m: "map cameraId (workers ?st) = [''c1'']"
    by (simp add: c1_running_workers)
  note t = one_worker_per_camera [of "c1_running @ [Reconcile [config_c1], Reconcile [config_c1]]" config_c1
      "workers ?st" ?st "[config_c1]" StopAll]
  from t h1 h2 have n: "workers (reconcile [config_c1] ?st) = workers ?st"
    by blast
  from t h3 m have k: "map cameraId (workers (exec ?st StopAll)) = [''c1'']"
    by simp
  from t i have w: "startWorker config_c1 (workers ?st) = workers ?st"
    by blast
  have "workers (foldl exec no_workers (c1_running @ [Reconcile [config_c1], Reconcile [config_c1]]))
      = workers ?st"
    using n by (simp add: n reconcile_def Let_def)
  with m have "map cameraId (workers (foldl exec no_workers (c1_running @ [Reconcile [config_c1], Reconcile [config_c1]]))) = [''c1'']"
    by simp
  with s i n k w show ?thesis by simp
qed

section \<open>The violations of a published alert snapshot\<close>

lemma count_class_distinct:
  "distinct (map fst gs) \<Longrightarrow> distinct (map fst (count_class gs c))"
  by (simp add: count_class_def distinct_update)

lemma group_by_class_distinct_aux:
  "distinct (map fst gs) \<Longrightarrow> distinct (map fst (foldl count_class gs cs))"
  by (induction cs arbitrary: gs) (simp_all add: count_class_distinct)

lemma map_of_count_class:
  "map_of (count_class gs c) k =
     (if k = c then Some (case map_of gs c of None \<Rightarrow> 1 | Some n \<Rightarrow> n + 1) else map_of gs k)"
  by (simp add: count_class_def update_conv')

lemma map_of_foldl_count_class:
  "map_of (foldl count_class gs cs) k =
     (if k \<in> set cs
      then Some ((case map_of gs k of None \<Rightarrow> 0 | Some n \<Rightarrow> n) + count_list cs k)
      else map_of gs k)"
proof (induction cs arbitrary: gs)
  case Nil
  then show ?case by simp
next
  case (Cons c cs)
  then show ?case
    by (auto simp: map_of_count_class split: option.splits)
qed

lemma group_by_class_distinct: "distinct (map fst (group_by_class cs))"
  by (simp add: group_by_class_def group_by_class_distinct_aux)

lemma group_by_class_entry:
  "(c, n) \<in> set (group_by_class cs) \<longleftrightarrow> c \<in> set cs \<and> n = count_list cs c"
proof -
  have "(c, n) \<in> set (group_by_class cs) \<longleftrightarrow> map_of (group_by_class cs) c = Some n"
    using group_by_class_distinct by simp
  then show ?thesis
    by (auto simp: group_by_class_def map_of_foldl_count_class)
qed

text \<open>The store holds only aggregates of frames that were processed for the camera.\<close>

lemma processed_append:
  "set (processed i (ops @ [op])) =
     set (processed i ops) \<union> (case op of
        WorkerEvent j (FrameProcessed f d) \<Rightarrow> if j = i then {(f, d)} else {}
      | _ \<Rightarrow> {})"
  by (induction i ops rule: processed.induct) (auto split: operation.splits worker_event.splits)

lemma publication_aggregates:
  assumes "holds_aggregates A s"
    and "\<And>f d. ev = FrameProcessed f d \<Longrightarrow> (f, d) \<in> A (cameraId w)"
  shows "holds_aggregates A (publication w ev s)"
proof (cases "lifecycleState w = Running")
  case False
  then show ?thesis using assms(1) by (simp add: publication_def)
next
  case True
  show ?thesis
  proof (cases ev)
    case (FrameProcessed f d)
    then have "(f, d) \<in> A (cameraId w)" by (rule assms(2))
    then show ?thesis
      using assms(1) True FrameProcessed
      by (auto simp: holds_aggregates_def publication_def publish_def)
  next
    case (DetectorFailed f)
    then show ?thesis
      using assms(1) True
      by (auto simp: holds_aggregates_def publication_def publish_def split: option.splits)
  qed (use assms(1) True in \<open>simp_all add: publication_def\<close>)
qed

lemma foldl_publication_aggregates:
  assumes "holds_aggregates A s"
    and "\<And>f d. ev = FrameProcessed f d \<Longrightarrow> (f, d) \<in> A i"
  shows "holds_aggregates A (foldl (\<lambda>s w. if cameraId w = i then publication w ev s else s) s ws)"
  using assms(1)
proof (induction ws arbitrary: s)
  case Nil
  then show ?case by simp
next
  case (Cons w ws)
  have "holds_aggregates A (if cameraId w = i then publication w ev s else s)"
    using Cons.prems assms(2) by (auto intro: publication_aggregates)
  then show ?case using Cons.IH by simp
qed

lemma exec_aggregates:
  assumes "holds_aggregates A st" and "by_workers op"
    and "\<And>j f d. op = WorkerEvent j (FrameProcessed f d) \<Longrightarrow> (f, d) \<in> A j"
  shows "holds_aggregates A (exec st op)"
proof (cases op)
  case (Reconcile cfgs)
  then show ?thesis using assms(1)
    by (auto simp: holds_aggregates_def reconcile_def Let_def split: if_splits)
next
  case StopAll
  then show ?thesis by (simp add: holds_aggregates_def stopAll_def)
next
  case (WorkerEvent i ev)
  have "holds_aggregates A
      (foldl (\<lambda>s w. if cameraId w = i then publication w ev s else s) st (workers st))"
    using assms(1) assms(3) WorkerEvent by (intro foldl_publication_aggregates) auto
  then show ?thesis using WorkerEvent
    by (simp add: worker_step_def holds_aggregates_def)
next
  case (Publish i f a)
  then show ?thesis using assms(2) by (simp add: by_workers_def)
next
  case (Clear i)
  then show ?thesis using assms(1)
    by (auto simp: holds_aggregates_def clear_def split: if_splits)
qed

lemma holds_aggregates_mono:
  "holds_aggregates A st \<Longrightarrow> (\<And>j. A j \<subseteq> B j) \<Longrightarrow> holds_aggregates B st"
  unfolding holds_aggregates_def by (meson subsetD)

lemma execs_aggregates:
  "\<forall>op \<in> set ops. by_workers op \<Longrightarrow>
     holds_aggregates (\<lambda>j. set (processed j ops)) (foldl exec no_workers ops)"
proof (induction ops rule: rev_induct)
  case Nil
  then show ?case by (simp add: holds_aggregates_def no_workers_def)
next
  case (snoc op ops)
  let ?A = "\<lambda>j. set (processed j (ops @ [op]))"
  have "holds_aggregates (\<lambda>j. set (processed j ops)) (foldl exec no_workers ops)"
    using snoc by simp
  then have "holds_aggregates ?A (foldl exec no_workers ops)"
    by (rule holds_aggregates_mono) (simp add: processed_append)
  moreover have "by_workers op" using snoc.prems by simp
  moreover have "\<And>j f d. op = WorkerEvent j (FrameProcessed f d) \<Longrightarrow> (f, d) \<in> ?A j"
    by (simp add: processed_append)
  ultimately have "holds_aggregates ?A (exec (foldl exec no_workers ops) op)"
    by (rule exec_aggregates)
  then show ?case by simp
qed

lemma published_after_frame:
  "published (foldl (\<lambda>s w. if cameraId w = i then publication w (FrameProcessed f d) s else s) s ws) i
     = (if \<exists>w \<in> set ws. cameraId w = i \<and> lifecycleState w = Running
        then Some (f, aggregate (capturedAt f) d) else published s i)"
proof (induction ws arbitrary: s)
  case Nil
  then show ?case by simp
next
  case (Cons w ws)
  then show ?case
    by (auto simp: publication_def publish_def)
qed

lemma aggregate_grouped:
  "distinct (map fst (snapshot_violations (aggregate t d))) \<and>
   (\<forall>c n. (c, n) \<in> set (snapshot_violations (aggregate t d)) \<longleftrightarrow>
      c \<in> set (violation_detections d) \<and> n = count_list (violation_detections d) c)"
  by (simp add: aggregate_def group_by_class_distinct group_by_class_entry)

text \<open>
  C2. In every state that the coordinator reaches by operations in which the workers
  alone write the Publisher, a published alert snapshot has no class id in two entries
  of its violations, and its entries are the violation classes of the detections of a
  frame processed for that camera, each with the number of its detections. And when a
  running worker processes a frame, the snapshot then published for its camera has,
  for each violation class of the detections of that frame, exactly one entry, whose
  count is the number of detections of the class.
\<close>

theorem published_violations_grouped:
  "((\<forall>op \<in> set ops. by_workers op) \<and>
    published (foldl exec no_workers ops) i = Some (frame, alerts) \<longrightarrow>
      distinct (map fst (snapshot_violations alerts)) \<and>
      (\<exists>(f, d) \<in> set (processed i ops).
         \<forall>c n. (c, n) \<in> set (snapshot_violations alerts) \<longleftrightarrow>
           c \<in> set (violation_detections d) \<and> n = count_list (violation_detections d) c)) \<and>
   ((\<exists>w \<in> set (workers st). cameraId w = i \<and> lifecycleState w = Running) \<longrightarrow>
      (\<exists>a. published (worker_step i (FrameProcessed f' d') st) i = Some (f', a) \<and>
         distinct (map fst (snapshot_violations a)) \<and>
         (\<forall>c n. (c, n) \<in> set (snapshot_violations a) \<longleftrightarrow>
            c \<in> set (violation_detections d') \<and> n = count_list (violation_detections d') c)))"
proof (intro conjI impI)
  assume a: "(\<forall>op \<in> set ops. by_workers op) \<and>
    published (foldl exec no_workers ops) i = Some (frame, alerts)"
  then have "holds_aggregates (\<lambda>j. set (processed j ops)) (foldl exec no_workers ops)"
    by (intro execs_aggregates) simp
  with a obtain g d where gd: "(g, d) \<in> set (processed i ops)"
    and al: "alerts = aggregate (capturedAt g) d"
    unfolding holds_aggregates_def by blast
  show "distinct (map fst (snapshot_violations alerts))"
    using al aggregate_grouped by simp
  show "\<exists>(f, d) \<in> set (processed i ops).
         \<forall>c n. (c, n) \<in> set (snapshot_violations alerts) \<longleftrightarrow>
           c \<in> set (violation_detections d) \<and> n = count_list (violation_detections d) c"
    using gd al aggregate_grouped by blast
next
  assume r: "\<exists>w \<in> set (workers st). cameraId w = i \<and> lifecycleState w = Running"
  have "published (worker_step i (FrameProcessed f' d') st) i
      = Some (f', aggregate (capturedAt f') d')"
    using r by (simp add: worker_step_def published_after_frame)
  then show "\<exists>a. published (worker_step i (FrameProcessed f' d') st) i = Some (f', a) \<and>
         distinct (map fst (snapshot_violations a)) \<and>
         (\<forall>c n. (c, n) \<in> set (snapshot_violations a) \<longleftrightarrow>
            c \<in> set (violation_detections d') \<and> n = count_list (violation_detections d') c)"
    using aggregate_grouped by blast
qed

lemma c1_running_published:
  "published (foldl exec no_workers c1_running) ''c1''
     = Some (frame1, aggregate (capturedAt frame1) detections1)"
  by (simp add: c1_running_def no_workers_def reconcile_def config_c1_def startWorker_def
      new_worker_def worker_step_def publication_def publish_def)

theorem published_violations_grouped_witness:
  "list_all by_workers c1_running \<and>
   published (foldl exec no_workers c1_running) ''c1''
     = Some (frame1, aggregate (capturedAt frame1) detections1) \<and>
   processed ''c1'' c1_running = [(frame1, detections1)] \<and>
   snapshot_violations (aggregate (capturedAt frame1) detections1) = [(7, 2), (5, 1)] \<and>
   distinct (map fst (snapshot_violations (aggregate (capturedAt frame1) detections1))) \<and>
   (7, 2) \<in> set (snapshot_violations (aggregate (capturedAt frame1) detections1)) \<and>
   (7, 1) \<notin> set (snapshot_violations (aggregate (capturedAt frame1) detections1))"
proof -
  have l: "list_all by_workers c1_running"
    by (simp add: c1_running_def by_workers_def)
  then have h: "\<forall>op \<in> set c1_running. by_workers op"
    by (simp add: list_all_iff)
  have p: "processed ''c1'' c1_running = [(frame1, detections1)]"
    by (simp add: c1_running_def)
  have v: "violation_detections detections1 = [7, 5, 7]"
    by (simp add: detections1_def)
  have g: "snapshot_violations (aggregate (capturedAt frame1) detections1) = [(7, 2), (5, 1)]"
    by (simp add: aggregate_def group_by_class_def count_class_def v)
  from published_violations_grouped [of c1_running "''c1''" frame1
      "aggregate (capturedAt frame1) detections1"] h c1_running_published p v
  have "distinct (map fst (snapshot_violations (aggregate (capturedAt frame1) detections1))) \<and>
    (7, 2) \<in> set (snapshot_violations (aggregate (capturedAt frame1) detections1)) \<and>
    (7, 1) \<notin> set (snapshot_violations (aggregate (capturedAt frame1) detections1))"
    by simp
  with l c1_running_published p g show ?thesis
    by simp
qed

end
